theory Spec2Isabelle
  imports Main "HOL-Library.AList" "HOL-Library.Word"
begin

section \<open>Data model of grpc.go\<close>

text \<open>
  The peer pool of \<^verbatim>\<open>grpc.go\<close> is embedded with explicit state passing. Every method of
  \<^verbatim>\<open>GRPCPool\<close> holds the pool's mutex for its whole body, so one call is one atomic
  state transformer. The effects outside of the pool (connections dialled and closed,
  log lines) are collected in the record \<open>net\<close>.
\<close>

type_synonym Hash = "8 word list \<Rightarrow> 32 word"

datatype DialOption = WithInsecure | OtherDialOption nat

text \<open>\<^verbatim>\<open>GRPCPoolOptions\<close>: a nil hash function and a nil slice of dial options are \<open>None\<close>.\<close>

record GRPCPoolOptions =
  Replicas :: int
  HashFn :: "Hash option"
  PeerDialOptions :: "DialOption list option"

text \<open>
  \<^verbatim>\<open>grpcGetter\<close>: the address and the client connection. A connection is the handle
  that \<^verbatim>\<open>grpc.Dial\<close> returned, \<open>None\<close> is the nil pointer. Every successful dial draws
  a fresh handle, so two getters are the same object iff they are equal.
\<close>

record grpcGetter =
  address :: string
  conn :: "nat option"

datatype error =
    PanicCalledOnlyOnce
  | FailedToConnect string
  | UnableToFindGroup string
  | FailedToRetrieve string string error
  | OtherError string

datatype logEntry =
    Warnf_FailedToOpen string
  | Infof_Adding string
  | Infof_Removing string

record net =
  nextConn :: nat
  closedConns :: "nat list"
  logs :: "logEntry list"

text \<open>
  Modelled from the spec: the stable hash ring (\<^verbatim>\<open>consistenthash.Map\<close>) is used by
  \<^verbatim>\<open>grpc.go\<close> but defined outside of it. The spec gives its interface
  (\<open>New\<close>, \<open>Add\<close>, \<open>Get\<close>, \<open>IsEmpty\<close>) and says that the ring is built from the membership
  set: a ring is its configuration and the addresses added so far, a fresh ring has
  none, and it is empty iff no address was added. \<open>Get\<close> is a parameter \<open>ringGet\<close> of
  the functions that call it: any deterministic function of the ring and the key.
\<close>

record consistenthash_Map =
  ring_replicas :: int
  ring_hash :: "Hash option"
  ring_members :: "string list"

definition consistenthash_New :: "int \<Rightarrow> Hash option \<Rightarrow> consistenthash_Map" where
  "consistenthash_New r fn = \<lparr>ring_replicas = r, ring_hash = fn, ring_members = []\<rparr>"

definition Map_Add :: "consistenthash_Map \<Rightarrow> string \<Rightarrow> consistenthash_Map" where
  "Map_Add m key = m\<lparr>ring_members := ring_members m @ [key]\<rparr>"

definition IsEmpty :: "consistenthash_Map \<Rightarrow> bool" where
  "IsEmpty m = (ring_members m = [])"

text \<open>
  \<^verbatim>\<open>GRPCPool\<close>. The Go map \<^verbatim>\<open>grpcGetters\<close> is an association list read with \<open>map_of\<close>,
  written with \<open>AList.update\<close> and \<open>AList.delete\<close>; iterating over the map visits
  \<open>AList.clearjunk\<close> of it (one entry per key). Go leaves the order of that iteration
  open; the model visits the entries in list order, and what is proved about the
  connections closed and returned is stated on sets, lengths and lookups.
\<close>

record GRPCPool =
  self :: string
  opts :: GRPCPoolOptions
  peers :: consistenthash_Map
  grpcGetters :: "(string \<times> grpcGetter) list"

section \<open>Peer connections\<close>

text \<open>
  \<^verbatim>\<open>grpc.Dial\<close> is the parameter \<open>dial\<close>: whether dialling an address with the given
  options succeeds.
\<close>

definition dialOpts :: "GRPCPool \<Rightarrow> DialOption list" where
  "dialOpts gp = (case PeerDialOptions (opts gp) of None \<Rightarrow> [] | Some ds \<Rightarrow> ds)"

definition newGRPCGetter ::
  "(string \<Rightarrow> DialOption list \<Rightarrow> bool) \<Rightarrow> string \<Rightarrow> DialOption list \<Rightarrow> net
    \<Rightarrow> (error + grpcGetter) \<times> net" where
  "newGRPCGetter dial addr ds n =
     (if dial addr ds
      then (Inr \<lparr>address = addr, conn = Some (nextConn n)\<rparr>, n\<lparr>nextConn := Suc (nextConn n)\<rparr>)
      else (Inl (FailedToConnect addr), n))"

definition GetURL :: "grpcGetter \<Rightarrow> string" where
  "GetURL g = address g"

definition close :: "grpcGetter \<Rightarrow> net \<Rightarrow> net" where
  "close g n = (case conn g of None \<Rightarrow> n
                | Some c \<Rightarrow> n\<lparr>closedConns := closedConns n @ [c]\<rparr>)"

section \<open>Membership operations\<close>

text \<open>
  One iteration of the first loop of \<^verbatim>\<open>Set\<close>. The state is the old map
  (\<^verbatim>\<open>gp.grpcGetters\<close>), the new map (\<^verbatim>\<open>tempGetters\<close>), the new ring and the environment.
\<close>

fun Set_body ::
  "(string \<Rightarrow> DialOption list \<Rightarrow> bool) \<Rightarrow> DialOption list \<Rightarrow> string
    \<Rightarrow> (string \<times> grpcGetter) list \<times> (string \<times> grpcGetter) list \<times> consistenthash_Map \<times> net
    \<Rightarrow> (string \<times> grpcGetter) list \<times> (string \<times> grpcGetter) list \<times> consistenthash_Map \<times> net"
  where
  "Set_body dial ds peer (old, temp, ring, n) =
     (case map_of old peer of
        Some getter \<Rightarrow>
          (AList.delete peer old, AList.update peer getter temp, Map_Add ring peer, n)
      | None \<Rightarrow>
          (case newGRPCGetter dial peer ds n of
             (Inl err, n') \<Rightarrow> (old, temp, ring, n'\<lparr>logs := logs n' @ [Warnf_FailedToOpen peer]\<rparr>)
           | (Inr getter, n') \<Rightarrow> (old, AList.update peer getter temp, Map_Add ring peer, n')))"

fun Set_loop ::
  "(string \<Rightarrow> DialOption list \<Rightarrow> bool) \<Rightarrow> DialOption list \<Rightarrow> string list
    \<Rightarrow> (string \<times> grpcGetter) list \<times> (string \<times> grpcGetter) list \<times> consistenthash_Map \<times> net
    \<Rightarrow> (string \<times> grpcGetter) list \<times> (string \<times> grpcGetter) list \<times> consistenthash_Map \<times> net"
  where
  "Set_loop dial ds [] s = s"
| "Set_loop dial ds (peer # rest) s = Set_loop dial ds rest (Set_body dial ds peer s)"

text \<open>The second loop of \<^verbatim>\<open>Set\<close>: every entry left in the old map is closed and deleted.\<close>

definition closeAll :: "(string \<times> grpcGetter) list \<Rightarrow> net \<Rightarrow> net" where
  "closeAll old n = fold (\<lambda>(p, g). close g) (AList.clearjunk old) n"

definition Set ::
  "(string \<Rightarrow> DialOption list \<Rightarrow> bool) \<Rightarrow> string list \<Rightarrow> GRPCPool \<times> net \<Rightarrow> GRPCPool \<times> net"
  where
  "Set dial ps = (\<lambda>(gp, n).
     (case Set_loop dial (dialOpts gp) ps
             (grpcGetters gp, [], consistenthash_New (Replicas (opts gp)) (HashFn (opts gp)), n) of
        (old, temp, ring, n1) \<Rightarrow> (gp\<lparr>peers := ring, grpcGetters := temp\<rparr>, closeAll old n1)))"

definition GetAll :: "GRPCPool \<Rightarrow> grpcGetter list" where
  "GetAll gp = map snd (AList.clearjunk (grpcGetters gp))"

text \<open>
  \<^verbatim>\<open>PickPeer\<close>: the getter returned is \<open>None\<close> for Go's nil (also the nil pointer that
  reading a missing key of \<^verbatim>\<open>grpcGetters\<close> yields).
\<close>

definition PickPeer ::
  "(consistenthash_Map \<Rightarrow> string \<Rightarrow> string) \<Rightarrow> GRPCPool \<Rightarrow> string \<Rightarrow> grpcGetter option \<times> bool"
  where
  "PickPeer ringGet gp key =
     (if IsEmpty (peers gp) then (None, False)
      else (let peer = ringGet (peers gp) key in
            if peer \<noteq> self gp then (map_of (grpcGetters gp) peer, True)
            else (None, False)))"

datatype Ack = Ack

fun AddPeers_body ::
  "(string \<Rightarrow> DialOption list \<Rightarrow> bool) \<Rightarrow> string \<Rightarrow> GRPCPool \<times> net \<Rightarrow> GRPCPool \<times> net" where
  "AddPeers_body dial peer (gp, n) =
     (case map_of (grpcGetters gp) peer of
        Some g \<Rightarrow> (gp, n)
      | None \<Rightarrow>
          (case newGRPCGetter dial peer (dialOpts gp) n of
             (Inl err, n') \<Rightarrow> (gp, n'\<lparr>logs := logs n' @ [Warnf_FailedToOpen peer]\<rparr>)
           | (Inr getter, n') \<Rightarrow>
               (gp\<lparr>grpcGetters := AList.update peer getter (grpcGetters gp),
                   peers := Map_Add (peers gp) peer\<rparr>,
                n'\<lparr>logs := logs n' @ [Infof_Adding peer]\<rparr>)))"

fun AddPeers_loop ::
  "(string \<Rightarrow> DialOption list \<Rightarrow> bool) \<Rightarrow> string list \<Rightarrow> GRPCPool \<times> net \<Rightarrow> GRPCPool \<times> net" where
  "AddPeers_loop dial [] s = s"
| "AddPeers_loop dial (peer # rest) s = AddPeers_loop dial rest (AddPeers_body dial peer s)"

definition AddPeers ::
  "(string \<Rightarrow> DialOption list \<Rightarrow> bool) \<Rightarrow> string list \<Rightarrow> GRPCPool \<times> net
    \<Rightarrow> (error + Ack) \<times> GRPCPool \<times> net" where
  "AddPeers dial ps s = (Inr Ack, AddPeers_loop dial ps s)"

fun RemovePeers_body :: "string \<Rightarrow> GRPCPool \<times> net \<Rightarrow> GRPCPool \<times> net" where
  "RemovePeers_body peer (gp, n) =
     (case map_of (grpcGetters gp) peer of
        Some p \<Rightarrow>
          (gp\<lparr>grpcGetters := AList.delete peer (grpcGetters gp)\<rparr>,
           close p (n\<lparr>logs := logs n @ [Infof_Removing peer]\<rparr>))
      | None \<Rightarrow> (gp, n))"

fun RemovePeers_loop :: "string list \<Rightarrow> GRPCPool \<times> net \<Rightarrow> GRPCPool \<times> net" where
  "RemovePeers_loop [] s = s"
| "RemovePeers_loop (peer # rest) s = RemovePeers_loop rest (RemovePeers_body peer s)"

definition RemovePeers :: "string list \<Rightarrow> GRPCPool \<times> net \<Rightarrow> (error + Ack) \<times> GRPCPool \<times> net"
  where
  "RemovePeers ps s = (Inr Ack, RemovePeers_loop ps s)"

definition SetPeers ::
  "(string \<Rightarrow> DialOption list \<Rightarrow> bool) \<Rightarrow> string list \<Rightarrow> GRPCPool \<times> net
    \<Rightarrow> (error + Ack) \<times> GRPCPool \<times> net" where
  "SetPeers dial ps s = (Inr Ack, Set dial ps s)"

section \<open>Inbound fetch and invalidate handlers\<close>

text \<open>
  Modelled from the spec: the local cache registry (\<^verbatim>\<open>GetGroup\<close>, \<^verbatim>\<open>Group\<close>) is used by
  \<^verbatim>\<open>grpc.go\<close> but defined outside of it. The spec gives \<open>GetGroup(name) \<rightarrow> Group | absent\<close>,
  \<open>Group.Get(ctx, key, sink) \<rightarrow> error\<close>, \<open>Group.localRemove(key)\<close> and a per-group
  server-request counter. The registry is a map from group names to groups; a group is
  its counter (\<^verbatim>\<open>Stats.ServerRequests\<close>, a 64-bit integer that \<^verbatim>\<open>Add(1)\<close> increments with
  wrap-around) and its local entries. \<open>Group.Get\<close> and \<open>Group.localRemove\<close> are the
  parameters \<open>groupGet\<close> and \<open>localRemove\<close>: they run on the group the handler hands
  them and return the group they leave behind (\<open>groupGet\<close> also the error or the bytes
  written to the sink).
\<close>

record Group =
  Stats_ServerRequests :: "64 word"
  entries :: "(string \<times> 8 word list) list"

definition GetGroup :: "(string \<rightharpoonup> Group) \<Rightarrow> string \<Rightarrow> Group option" where
  "GetGroup groups name = groups name"

record RetrieveRequest =
  retrieve_Group :: string
  retrieve_Key :: string

record RetrieveResponse =
  Value :: "8 word list"

record DeleteRequest =
  delete_Group :: string
  delete_Key :: string

definition Retrieve ::
  "(Group \<Rightarrow> string \<Rightarrow> (error + 8 word list) \<times> Group) \<Rightarrow> (string \<rightharpoonup> Group) \<Rightarrow> RetrieveRequest
    \<Rightarrow> (error + RetrieveResponse) \<times> (string \<rightharpoonup> Group)" where
  "Retrieve groupGet groups req =
     (case GetGroup groups (retrieve_Group req) of
        None \<Rightarrow> (Inl (UnableToFindGroup (retrieve_Group req)), groups)
      | Some grp \<Rightarrow>
          (case groupGet (grp\<lparr>Stats_ServerRequests := Stats_ServerRequests grp + 1\<rparr>)
                  (retrieve_Key req) of
             (Inl err, grp') \<Rightarrow>
               (Inl (FailedToRetrieve (retrieve_Group req) (retrieve_Key req) err),
                groups(retrieve_Group req \<mapsto> grp'))
           | (Inr v, grp') \<Rightarrow>
               (Inr \<lparr>Value = v\<rparr>, groups(retrieve_Group req \<mapsto> grp'))))"

definition Delete ::
  "(Group \<Rightarrow> string \<Rightarrow> Group) \<Rightarrow> (string \<rightharpoonup> Group) \<Rightarrow> DeleteRequest
    \<Rightarrow> (error + Ack) \<times> (string \<rightharpoonup> Group)" where
  "Delete localRemove groups req =
     (case GetGroup groups (delete_Group req) of
        None \<Rightarrow> (Inl (UnableToFindGroup (delete_Group req)), groups)
      | Some grp \<Rightarrow>
          (Inr Ack,
           groups(delete_Group req \<mapsto>
             localRemove (grp\<lparr>Stats_ServerRequests := Stats_ServerRequests grp + 1\<rparr>)
               (delete_Key req))))"

section \<open>Construction\<close>

text \<open>
  The process-wide state that construction reads and writes: the package variable
  \<^verbatim>\<open>grpcPoolCreated\<close>, and (modelled from the spec: \<^verbatim>\<open>RegisterPeerPicker\<close> and
  \<^verbatim>\<open>gcgrpc.RegisterPeerServer\<close> are defined outside of \<^verbatim>\<open>grpc.go\<close>; construction
  "registers itself as the process-wide peer-selection provider, and registers its
  remote-operations handlers on the supplied service endpoint") the pool registered as
  peer picker and as peer server, named by its \<open>self\<close>. The constant
  \<^verbatim>\<open>defaultReplicas\<close> is declared outside of \<^verbatim>\<open>grpc.go\<close> and is a parameter. A panic is
  the error \<open>PanicCalledOnlyOnce\<close>.
\<close>

record process =
  grpcPoolCreated :: bool
  peerPicker :: "string option"
  peerServer :: "string option"

definition NewGRPCPoolOptions ::
  "int \<Rightarrow> string \<Rightarrow> GRPCPoolOptions option \<Rightarrow> process \<Rightarrow> (error + GRPCPool) \<times> process" where
  "NewGRPCPoolOptions defaultReplicas slf os ps =
     (if grpcPoolCreated ps then (Inl PanicCalledOnlyOnce, ps)
      else
        (let o1 = (case os of
                     None \<Rightarrow> \<lparr>Replicas = 0, HashFn = None, PeerDialOptions = None\<rparr>
                   | Some x \<Rightarrow> x);
             o2 = (if Replicas o1 = 0 then o1\<lparr>Replicas := defaultReplicas\<rparr> else o1);
             o3 = (if PeerDialOptions o2 = None
                   then o2\<lparr>PeerDialOptions := Some [WithInsecure]\<rparr> else o2)
         in (Inr \<lparr>self = slf, opts = o3,
                  peers = consistenthash_New (Replicas o3) (HashFn o3),
                  grpcGetters = []\<rparr>,
             ps\<lparr>grpcPoolCreated := True, peerPicker := Some slf, peerServer := Some slf\<rparr>)))"

definition NewGRPCPool :: "int \<Rightarrow> string \<Rightarrow> process \<Rightarrow> (error + GRPCPool) \<times> process" where
  "NewGRPCPool defaultReplicas slf ps = NewGRPCPoolOptions defaultReplicas slf None ps"

text \<open>
  The invariant of the data model: the keys of \<^verbatim>\<open>grpcGetters\<close> are exactly the addresses
  in the ring.
\<close>

definition membership_consistent :: "GRPCPool \<Rightarrow> bool" where
  "membership_consistent gp =
     (set (map fst (grpcGetters gp)) = set (ring_members (peers gp)))"

section \<open>Example states\<close>

text \<open>
  Concrete inputs for the closed theorems below: a dial that always succeeds and one that
  always fails, the process before construction, the pool that construction returns for
  \<open>self = A\<close>, the states reached from it by \<^verbatim>\<open>SetPeers\<close>, a ring lookup that answers
  \<open>B\<close>, and a registry with one group.
\<close>

definition dial_ok :: "string \<Rightarrow> DialOption list \<Rightarrow> bool" where
  "dial_ok a ds = True"

definition dial_fail :: "string \<Rightarrow> DialOption list \<Rightarrow> bool" where
  "dial_fail a ds = False"

definition process_0 :: process where
  "process_0 = \<lparr>grpcPoolCreated = False, peerPicker = None, peerServer = None\<rparr>"

definition pool_A :: GRPCPool where
  "pool_A = \<lparr>self = ''A'',
             opts = \<lparr>Replicas = 50, HashFn = None, PeerDialOptions = Some [WithInsecure]\<rparr>,
             peers = \<lparr>ring_replicas = 50, ring_hash = None, ring_members = []\<rparr>,
             grpcGetters = []\<rparr>"

definition net_0 :: net where
  "net_0 = \<lparr>nextConn = 0, closedConns = [], logs = []\<rparr>"

definition state_B :: "GRPCPool \<times> net" where
  "state_B = snd (SetPeers dial_ok [''B''] (pool_A, net_0))"

definition state_BC :: "GRPCPool \<times> net" where
  "state_BC = snd (SetPeers dial_ok [''B'', ''C''] (pool_A, net_0))"

definition owner_B :: "consistenthash_Map \<Rightarrow> string \<Rightarrow> string" where
  "owner_B m key = ''B''"

definition group_g :: Group where
  "group_g = \<lparr>Stats_ServerRequests = 7, entries = [(''k'', [1, 2])]\<rparr>"

definition groups_0 :: "string \<rightharpoonup> Group" where
  "groups_0 = [''g'' \<mapsto> group_g]"

definition fetch_0 :: "Group \<Rightarrow> string \<Rightarrow> (error + 8 word list) \<times> Group" where
  "fetch_0 g k = (case map_of (entries g) k of
                    None \<Rightarrow> (Inl (OtherError ''miss''), g)
                  | Some v \<Rightarrow> (Inr v, g))"

definition localRemove_0 :: "Group \<Rightarrow> string \<Rightarrow> Group" where
  "localRemove_0 g k = g\<lparr>entries := AList.delete k (entries g)\<rparr>"

section \<open>Evaluation of the example states\<close>

lemmas eval_ops = dial_ok_def dial_fail_def process_0_def pool_A_def net_0_def owner_B_def
  NewGRPCPool_def NewGRPCPoolOptions_def consistenthash_New_def Map_Add_def IsEmpty_def
  dialOpts_def newGRPCGetter_def close_def closeAll_def Set_body.simps Set_def SetPeers_def
  AddPeers_def RemovePeers_def PickPeer_def GetAll_def membership_consistent_def

lemmas eval_defs = state_B_def state_BC_def eval_ops

lemma pool_A_constructed:
  "NewGRPCPool 50 ''A'' process_0 =
     (Inr pool_A, \<lparr>grpcPoolCreated = True, peerPicker = Some ''A'', peerServer = Some ''A''\<rparr>)"
  by (simp add: eval_defs)

lemma state_B_eval:
  "state_B = (pool_A\<lparr>peers := \<lparr>ring_replicas = 50, ring_hash = None, ring_members = [''B'']\<rparr>,
                     grpcGetters := [(''B'', \<lparr>address = ''B'', conn = Some 0\<rparr>)]\<rparr>,
              \<lparr>nextConn = 1, closedConns = [], logs = []\<rparr>)"
  by (simp add: eval_defs)

lemma state_BC_eval:
  "state_BC = (pool_A\<lparr>peers := \<lparr>ring_replicas = 50, ring_hash = None, ring_members = [''B'', ''C'']\<rparr>,
                     grpcGetters := [(''B'', \<lparr>address = ''B'', conn = Some 0\<rparr>),
                                     (''C'', \<lparr>address = ''C'', conn = Some 1\<rparr>)]\<rparr>,
              \<lparr>nextConn = 2, closedConns = [], logs = []\<rparr>)"
  by (simp add: eval_defs)

section \<open>The first loop of Set\<close>

text \<open>One iteration of the loop is one of three cases: the address has a connection in the
  old map, it has none and the dial succeeds, or it has none and the dial fails.\<close>

lemma keys_update: "fst ` set (AList.update k v al) = insert k (fst ` set al)"
  by (induction al) auto

lemma Set_body_exists:
  "map_of old p = Some g \<Longrightarrow>
     Set_body dial ds p (old, temp, ring, n) =
       (AList.delete p old, AList.update p g temp, Map_Add ring p, n)"
  by simp

lemma Set_body_dialled:
  "map_of old p = None \<Longrightarrow> dial p ds \<Longrightarrow>
     Set_body dial ds p (old, temp, ring, n) =
       (old, AList.update p \<lparr>address = p, conn = Some (nextConn n)\<rparr> temp, Map_Add ring p,
        n\<lparr>nextConn := Suc (nextConn n)\<rparr>)"
  by (simp add: newGRPCGetter_def)

lemma Set_body_failed:
  "map_of old p = None \<Longrightarrow> \<not> dial p ds \<Longrightarrow>
     Set_body dial ds p (old, temp, ring, n) =
       (old, temp, ring, n\<lparr>logs := logs n @ [Warnf_FailedToOpen p]\<rparr>)"
  by (simp add: newGRPCGetter_def)

lemma Set_body_cases:
  obtains (exists) g where "map_of old p = Some g"
      "Set_body dial ds p (old, temp, ring, n) =
         (AList.delete p old, AList.update p g temp, Map_Add ring p, n)"
  | (dialled) "map_of old p = None" "dial p ds"
      "Set_body dial ds p (old, temp, ring, n) =
         (old, AList.update p \<lparr>address = p, conn = Some (nextConn n)\<rparr> temp, Map_Add ring p,
          n\<lparr>nextConn := Suc (nextConn n)\<rparr>)"
  | (failed) "map_of old p = None" "\<not> dial p ds"
      "Set_body dial ds p (old, temp, ring, n) =
         (old, temp, ring, n\<lparr>logs := logs n @ [Warnf_FailedToOpen p]\<rparr>)"
proof (cases "map_of old p")
  case None
  show ?thesis
  proof (cases "dial p ds")
    case True
    show ?thesis by (rule dialled) (simp_all add: None True newGRPCGetter_def)
  next
    case False
    show ?thesis by (rule failed) (simp_all add: None False newGRPCGetter_def)
  qed
next
  case (Some g)
  show ?thesis by (rule exists [of g]) (simp_all add: Some)
qed

lemma Set_body_old:
  assumes "Set_body dial ds p (old, temp, ring, n) = (old1, temp1, ring1, n1)"
  shows "map_of old1 = (map_of old)(p := None)"
proof (cases rule: Set_body_cases [of old p dial ds temp ring n])
  case (exists g)
  with assms show ?thesis by (auto simp: delete_conv')
next
  case dialled
  with assms show ?thesis by auto
next
  case failed
  with assms show ?thesis by auto
qed

lemma Set_body_keys:
  assumes "Set_body dial ds p (old, temp, ring, n) = (old1, temp1, ring1, n1)"
  shows "fst ` set temp1 =
           fst ` set temp \<union> (if map_of old p \<noteq> None \<or> dial p ds then {p} else {})"
proof (cases rule: Set_body_cases [of old p dial ds temp ring n])
  case (exists g)
  with assms show ?thesis by (clarsimp simp: keys_update)
next
  case dialled
  with assms show ?thesis by (clarsimp simp: keys_update)
next
  case failed
  with assms show ?thesis by auto
qed

lemma Set_body_ring:
  assumes "Set_body dial ds p (old, temp, ring, n) = (old1, temp1, ring1, n1)"
  shows "ring_members ring1 =
           ring_members ring @ (if map_of old p \<noteq> None \<or> dial p ds then [p] else [])"
proof (cases rule: Set_body_cases [of old p dial ds temp ring n])
  case (exists g)
  with assms show ?thesis by (auto simp: Map_Add_def)
next
  case dialled
  with assms show ?thesis by (auto simp: Map_Add_def)
next
  case failed
  with assms show ?thesis by auto
qed

lemma Set_body_ring_set:
  assumes "Set_body dial ds p (old, temp, ring, n) = (old1, temp1, ring1, n1)"
  shows "set (ring_members ring1) =
           set (ring_members ring) \<union> (if map_of old p \<noteq> None \<or> dial p ds then {p} else {})"
  by (simp add: Set_body_ring [OF assms])

lemma Set_body_temp_other:
  assumes "Set_body dial ds p (old, temp, ring, n) = (old1, temp1, ring1, n1)" and "a \<noteq> p"
  shows "map_of temp1 a = map_of temp a"
proof (cases rule: Set_body_cases [of old p dial ds temp ring n])
  case (exists g)
  with assms show ?thesis by (auto simp: update_conv')
next
  case dialled
  with assms show ?thesis by (auto simp: update_conv')
next
  case failed
  with assms show ?thesis by auto
qed

lemma Set_body_temp_moved:
  assumes "Set_body dial ds p (old, temp, ring, n) = (old1, temp1, ring1, n1)"
    and "map_of old p = Some g"
  shows "map_of temp1 p = Some g"
  using assms by (auto simp: update_conv')

lemma Set_body_distinct:
  assumes "Set_body dial ds p (old, temp, ring, n) = (old1, temp1, ring1, n1)"
    and "distinct (map fst temp)"
  shows "distinct (map fst temp1)"
proof (cases rule: Set_body_cases [of old p dial ds temp ring n])
  case (exists g)
  with assms show ?thesis by (auto simp: distinct_update)
next
  case dialled
  with assms show ?thesis by (auto simp: distinct_update)
next
  case failed
  with assms show ?thesis by auto
qed

lemma Set_body_net:
  assumes "Set_body dial ds p (old, temp, ring, n) = (old1, temp1, ring1, n1)"
  shows "closedConns n1 = closedConns n \<and> nextConn n \<le> nextConn n1"
proof (cases rule: Set_body_cases [of old p dial ds temp ring n])
  case (exists g)
  with assms show ?thesis by auto
next
  case dialled
  with assms show ?thesis by auto
next
  case failed
  with assms show ?thesis by auto
qed

declare Set_body.simps [simp del]

lemma Set_body_result:
  obtains old1 temp1 ring1 n1 where
    "Set_body dial ds p (old, temp, ring, n) = (old1, temp1, ring1, n1)"
  by (cases "Set_body dial ds p (old, temp, ring, n)") auto

lemma Set_loop_old:
  "Set_loop dial ds ps (old, temp, ring, n) = (old', temp', ring', n') \<Longrightarrow>
     map_of old' a = (if a \<in> set ps then None else map_of old a)"
proof (induction ps arbitrary: old temp ring n)
  case Nil
  then show ?case by simp
next
  case (Cons p ps)
  obtain old1 temp1 ring1 n1 where
    b: "Set_body dial ds p (old, temp, ring, n) = (old1, temp1, ring1, n1)"
    by (rule Set_body_result)
  from Cons.prems(1) b
  have l: "Set_loop dial ds ps (old1, temp1, ring1, n1) = (old', temp', ring', n')"
    by simp
  from Cons.IH [OF l] Set_body_old [OF b] show ?case by auto
qed

lemma Set_loop_keys:
  "Set_loop dial ds ps (old, temp, ring, n) = (old', temp', ring', n') \<Longrightarrow>
     fst ` set temp' =
       fst ` set temp \<union> {a \<in> set ps. map_of old a \<noteq> None \<or> dial a ds}"
proof (induction ps arbitrary: old temp ring n)
  case Nil
  then show ?case by simp
next
  case (Cons p ps)
  obtain old1 temp1 ring1 n1 where
    b: "Set_body dial ds p (old, temp, ring, n) = (old1, temp1, ring1, n1)"
    by (rule Set_body_result)
  from Cons.prems(1) b
  have l: "Set_loop dial ds ps (old1, temp1, ring1, n1) = (old', temp', ring', n')"
    by simp
  from Cons.IH [OF l] Set_body_old [OF b] Set_body_keys [OF b] show ?case
    by (auto split: if_splits)
qed

lemma Set_loop_ring:
  "Set_loop dial ds ps (old, temp, ring, n) = (old', temp', ring', n') \<Longrightarrow>
     set (ring_members ring') =
       set (ring_members ring) \<union> {a \<in> set ps. map_of old a \<noteq> None \<or> dial a ds}"
proof (induction ps arbitrary: old temp ring n)
  case Nil
  then show ?case by simp
next
  case (Cons p ps)
  obtain old1 temp1 ring1 n1 where
    b: "Set_body dial ds p (old, temp, ring, n) = (old1, temp1, ring1, n1)"
    by (rule Set_body_result)
  from Cons.prems(1) b
  have l: "Set_loop dial ds ps (old1, temp1, ring1, n1) = (old', temp', ring', n')"
    by simp
  from Cons.IH [OF l] Set_body_old [OF b] Set_body_ring_set [OF b] show ?case
    by (auto split: if_splits)
qed

lemma Set_loop_distinct:
  "Set_loop dial ds ps (old, temp, ring, n) = (old', temp', ring', n') \<Longrightarrow>
     distinct (map fst temp) \<Longrightarrow> distinct (map fst temp')"
proof (induction ps arbitrary: old temp ring n)
  case Nil
  then show ?case by simp
next
  case (Cons p ps)
  obtain old1 temp1 ring1 n1 where
    b: "Set_body dial ds p (old, temp, ring, n) = (old1, temp1, ring1, n1)"
    by (rule Set_body_result)
  from Cons.prems(1) b
  have l: "Set_loop dial ds ps (old1, temp1, ring1, n1) = (old', temp', ring', n')"
    by simp
  from Cons.IH [OF l] Set_body_distinct [OF b] Cons.prems(2) show ?case by simp
qed

lemma Set_loop_closed:
  "Set_loop dial ds ps (old, temp, ring, n) = (old', temp', ring', n') \<Longrightarrow>
     closedConns n' = closedConns n"
proof (induction ps arbitrary: old temp ring n)
  case Nil
  then show ?case by simp
next
  case (Cons p ps)
  obtain old1 temp1 ring1 n1 where
    b: "Set_body dial ds p (old, temp, ring, n) = (old1, temp1, ring1, n1)"
    by (rule Set_body_result)
  from Cons.prems(1) b
  have l: "Set_loop dial ds ps (old1, temp1, ring1, n1) = (old', temp', ring', n')"
    by simp
  from Cons.IH [OF l] Set_body_net [OF b] show ?case by simp
qed

lemma Set_loop_temp_other:
  "Set_loop dial ds ps (old, temp, ring, n) = (old', temp', ring', n') \<Longrightarrow>
     a \<notin> set ps \<Longrightarrow> map_of temp' a = map_of temp a"
proof (induction ps arbitrary: old temp ring n)
  case Nil
  then show ?case by simp
next
  case (Cons p ps)
  obtain old1 temp1 ring1 n1 where
    b: "Set_body dial ds p (old, temp, ring, n) = (old1, temp1, ring1, n1)"
    by (rule Set_body_result)
  from Cons.prems(1) b
  have l: "Set_loop dial ds ps (old1, temp1, ring1, n1) = (old', temp', ring', n')"
    by simp
  from Cons.IH [OF l] Set_body_temp_other [OF b, of a] Cons.prems(2) show ?case by simp
qed

lemma Set_loop_reuse:
  "Set_loop dial ds ps (old, temp, ring, n) = (old', temp', ring', n') \<Longrightarrow>
     distinct ps \<Longrightarrow> a \<in> set ps \<Longrightarrow> map_of old a = Some g \<Longrightarrow> map_of temp' a = Some g"
proof (induction ps arbitrary: old temp ring n)
  case Nil
  then show ?case by simp
next
  case (Cons p ps)
  obtain old1 temp1 ring1 n1 where
    b: "Set_body dial ds p (old, temp, ring, n) = (old1, temp1, ring1, n1)"
    by (rule Set_body_result)
  from Cons.prems(1) b
  have l: "Set_loop dial ds ps (old1, temp1, ring1, n1) = (old', temp', ring', n')"
    by simp
  show ?case
  proof (cases "a = p")
    case True
    with Cons.prems have "a \<notin> set ps" by simp
    from Set_loop_temp_other [OF l this] Set_body_temp_moved [OF b, of g] True Cons.prems(4)
    show ?thesis by simp
  next
    case False
    with Cons.prems have "a \<in> set ps" "distinct ps" by simp_all
    moreover from Set_body_old [OF b] False Cons.prems(4) have "map_of old1 a = Some g" by simp
    ultimately show ?thesis using Cons.IH [OF l] by simp
  qed
qed

section \<open>Closing the connections left over, and Set as a whole\<close>

lemma in_clearjunk_iff: "(a, g) \<in> set (AList.clearjunk al) \<longleftrightarrow> map_of al a = Some g"
  using map_of_eq_Some_iff [OF distinct_clearjunk, of al a g] by (simp add: map_of_clearjunk)

lemma close_closedConns:
  "set (closedConns (close g n)) = set (closedConns n) \<union> {c. conn g = Some c}"
  by (cases "conn g") (simp_all add: close_def)

lemma fold_close_closedConns:
  "set (closedConns (fold (\<lambda>(p, g). close g) xs n)) =
     set (closedConns n) \<union> {c. \<exists>a g. (a, g) \<in> set xs \<and> conn g = Some c}"
proof (induction xs arbitrary: n)
  case Nil
  then show ?case by simp
next
  case (Cons x xs)
  obtain a g where x: "x = (a, g)" by (cases x)
  have "{c. \<exists>a' g'. (a', g') \<in> set (x # xs) \<and> conn g' = Some c} =
        {c. conn g = Some c} \<union> {c. \<exists>a' g'. (a', g') \<in> set xs \<and> conn g' = Some c}"
    unfolding x by auto
  then show ?case
    by (simp add: x Cons.IH close_closedConns Un_assoc)
qed

lemma closeAll_closedConns:
  "set (closedConns (closeAll al n)) =
     set (closedConns n) \<union> {c. \<exists>a g. map_of al a = Some g \<and> conn g = Some c}"
  by (simp add: closeAll_def fold_close_closedConns in_clearjunk_iff)

lemma Set_result:
  obtains old' temp' ring' n1 where
    "Set_loop dial (dialOpts gp) ps
       (grpcGetters gp, [], consistenthash_New (Replicas (opts gp)) (HashFn (opts gp)), n) =
     (old', temp', ring', n1)"
    and "Set dial ps (gp, n) = (gp\<lparr>peers := ring', grpcGetters := temp'\<rparr>, closeAll old' n1)"
proof -
  obtain old' temp' ring' n1 where l: "Set_loop dial (dialOpts gp) ps
       (grpcGetters gp, [], consistenthash_New (Replicas (opts gp)) (HashFn (opts gp)), n) =
     (old', temp', ring', n1)"
    using prod_cases4 by blast
  then have "Set dial ps (gp, n) = (gp\<lparr>peers := ring', grpcGetters := temp'\<rparr>, closeAll old' n1)"
    by (simp add: Set_def)
  with l show ?thesis using that by blast
qed

lemma Set_keys:
  "fst ` set (grpcGetters (fst (Set dial ps (gp, n)))) =
     {a \<in> set ps. map_of (grpcGetters gp) a \<noteq> None \<or> dial a (dialOpts gp)}"
proof -
  obtain old' temp' ring' n1 where
    l: "Set_loop dial (dialOpts gp) ps
       (grpcGetters gp, [], consistenthash_New (Replicas (opts gp)) (HashFn (opts gp)), n) =
     (old', temp', ring', n1)"
    and s: "Set dial ps (gp, n) = (gp\<lparr>peers := ring', grpcGetters := temp'\<rparr>, closeAll old' n1)"
    by (rule Set_result)
  from Set_loop_keys [OF l] s show ?thesis by simp
qed

lemma Set_ring:
  "set (ring_members (peers (fst (Set dial ps (gp, n))))) =
     {a \<in> set ps. map_of (grpcGetters gp) a \<noteq> None \<or> dial a (dialOpts gp)}"
proof -
  obtain old' temp' ring' n1 where
    l: "Set_loop dial (dialOpts gp) ps
       (grpcGetters gp, [], consistenthash_New (Replicas (opts gp)) (HashFn (opts gp)), n) =
     (old', temp', ring', n1)"
    and s: "Set dial ps (gp, n) = (gp\<lparr>peers := ring', grpcGetters := temp'\<rparr>, closeAll old' n1)"
    by (rule Set_result)
  from Set_loop_ring [OF l] s show ?thesis by (simp add: consistenthash_New_def)
qed

lemma Set_distinct: "distinct (map fst (grpcGetters (fst (Set dial ps (gp, n)))))"
proof -
  obtain old' temp' ring' n1 where
    l: "Set_loop dial (dialOpts gp) ps
       (grpcGetters gp, [], consistenthash_New (Replicas (opts gp)) (HashFn (opts gp)), n) =
     (old', temp', ring', n1)"
    and s: "Set dial ps (gp, n) = (gp\<lparr>peers := ring', grpcGetters := temp'\<rparr>, closeAll old' n1)"
    by (rule Set_result)
  from Set_loop_distinct [OF l] s show ?thesis by simp
qed

lemma Set_closedConns:
  "set (closedConns (snd (Set dial ps (gp, n)))) =
     set (closedConns n) \<union>
     {c. \<exists>a g. a \<notin> set ps \<and> map_of (grpcGetters gp) a = Some g \<and> conn g = Some c}"
proof -
  obtain old' temp' ring' n1 where
    l: "Set_loop dial (dialOpts gp) ps
       (grpcGetters gp, [], consistenthash_New (Replicas (opts gp)) (HashFn (opts gp)), n) =
     (old', temp', ring', n1)"
    and s: "Set dial ps (gp, n) = (gp\<lparr>peers := ring', grpcGetters := temp'\<rparr>, closeAll old' n1)"
    by (rule Set_result)
  have "\<And>a. map_of old' a = (if a \<in> set ps then None else map_of (grpcGetters gp) a)"
    by (rule Set_loop_old [OF l])
  then have "{c. \<exists>a g. map_of old' a = Some g \<and> conn g = Some c} =
     {c. \<exists>a g. a \<notin> set ps \<and> map_of (grpcGetters gp) a = Some g \<and> conn g = Some c}"
    by auto
  with Set_loop_closed [OF l] s show ?thesis by (simp add: closeAll_closedConns)
qed

lemma Set_reuses:
  assumes "distinct ps" and "a \<in> set ps" and "map_of (grpcGetters gp) a = Some g"
  shows "map_of (grpcGetters (fst (Set dial ps (gp, n)))) a = Some g"
proof -
  obtain old' temp' ring' n1 where
    l: "Set_loop dial (dialOpts gp) ps
       (grpcGetters gp, [], consistenthash_New (Replicas (opts gp)) (HashFn (opts gp)), n) =
     (old', temp', ring', n1)"
    and s: "Set dial ps (gp, n) = (gp\<lparr>peers := ring', grpcGetters := temp'\<rparr>, closeAll old' n1)"
    by (rule Set_result)
  from Set_loop_reuse [OF l assms] s show ?thesis by simp
qed

lemma Set_membership_consistent: "membership_consistent (fst (Set dial ps (gp, n)))"
  using Set_keys [of dial ps gp n] Set_ring [of dial ps gp n]
  by (simp add: membership_consistent_def)

lemma Set_opts: "opts (fst (Set dial ps (gp, n))) = opts gp \<and> self (fst (Set dial ps (gp, n))) = self gp"
proof -
  obtain old' temp' ring' n1 where
    s: "Set dial ps (gp, n) = (gp\<lparr>peers := ring', grpcGetters := temp'\<rparr>, closeAll old' n1)"
    by (rule Set_result)
  then show ?thesis by simp
qed

section \<open>AddPeers and RemovePeers\<close>

lemma AddPeers_body_consistent:
  "membership_consistent gp \<Longrightarrow> membership_consistent (fst (AddPeers_body dial p (gp, n)))"
  by (cases "map_of (grpcGetters gp) p"; cases "dial p (dialOpts gp)")
     (simp_all add: membership_consistent_def newGRPCGetter_def keys_update Map_Add_def)


lemma AddPeers_body_kept:
  "map_of (grpcGetters gp) a = Some g \<Longrightarrow>
     map_of (grpcGetters (fst (AddPeers_body dial p (gp, n)))) a = Some g"
  by (cases "map_of (grpcGetters gp) p"; cases "dial p (dialOpts gp)")
     (auto simp: newGRPCGetter_def update_conv')


lemma AddPeers_loop_consistent:
  "membership_consistent (fst s) \<Longrightarrow> membership_consistent (fst (AddPeers_loop dial ps s))"
proof (induction ps arbitrary: s)
  case Nil
  then show ?case by simp
next
  case (Cons p ps)
  obtain gp n where s: "s = (gp, n)" by (cases s)
  from Cons.prems have "membership_consistent (fst (AddPeers_body dial p s))"
    unfolding s by (simp add: AddPeers_body_consistent del: AddPeers_body.simps)
  from Cons.IH [OF this] show ?case by simp
qed

lemma AddPeers_loop_kept:
  "map_of (grpcGetters (fst s)) a = Some g \<Longrightarrow>
     map_of (grpcGetters (fst (AddPeers_loop dial ps s))) a = Some g"
proof (induction ps arbitrary: s)
  case Nil
  then show ?case by simp
next
  case (Cons p ps)
  obtain gp n where s: "s = (gp, n)" by (cases s)
  from Cons.prems have "map_of (grpcGetters (fst (AddPeers_body dial p s))) a = Some g"
    unfolding s by (simp add: AddPeers_body_kept del: AddPeers_body.simps)
  from Cons.IH [OF this] show ?case by simp
qed


lemma RemovePeers_body_peers: "peers (fst (RemovePeers_body p (gp, n))) = peers gp"
  by (cases "map_of (grpcGetters gp) p") simp_all

lemma RemovePeers_body_getters:
  "map_of (grpcGetters (fst (RemovePeers_body p (gp, n)))) = (map_of (grpcGetters gp))(p := None)"
  by (cases "map_of (grpcGetters gp) p") (auto simp: delete_conv')

lemma RemovePeers_loop_peers: "peers (fst (RemovePeers_loop ps s)) = peers (fst s)"
proof (induction ps arbitrary: s)
  case Nil
  then show ?case by simp
next
  case (Cons p ps)
  obtain gp n where s: "s = (gp, n)" by (cases s)
  have "peers (fst (RemovePeers_body p s)) = peers (fst s)"
    unfolding s by (simp add: RemovePeers_body_peers del: RemovePeers_body.simps)
  with Cons.IH [of "RemovePeers_body p s"] show ?case by simp
qed

lemma RemovePeers_loop_getters:
  "map_of (grpcGetters (fst (RemovePeers_loop ps s))) a =
     (if a \<in> set ps then None else map_of (grpcGetters (fst s)) a)"
proof (induction ps arbitrary: s)
  case Nil
  then show ?case by simp
next
  case (Cons p ps)
  obtain gp n where s: "s = (gp, n)" by (cases s)
  have "map_of (grpcGetters (fst (RemovePeers_body p s))) = (map_of (grpcGetters (fst s)))(p := None)"
    unfolding s by (simp add: RemovePeers_body_getters del: RemovePeers_body.simps)
  with Cons.IH [of "RemovePeers_body p s"] show ?case by simp
qed

section \<open>What the membership handlers guarantee\<close>

text \<open>
  The general facts behind the claims that follow: construction, \<^verbatim>\<open>SetPeers\<close> and
  \<^verbatim>\<open>AddPeers\<close> keep the keys of the map and the ring equal; \<^verbatim>\<open>RemovePeers\<close> deletes the
  listed addresses from the map and never touches the ring; every handler acknowledges;
  an address without a connection whose dial fails is absent afterwards; \<^verbatim>\<open>AddPeers\<close>
  leaves existing connections alone; and \<^verbatim>\<open>SetPeers\<close> with a list without repetitions
  carries every existing connection of a listed address forward unchanged.
\<close>

lemma NewGRPCPoolOptions_consistent:
  "NewGRPCPoolOptions d slf os ps = (Inr gp, ps') \<Longrightarrow>
     membership_consistent gp \<and> grpcGetters gp = [] \<and> IsEmpty (peers gp) \<and> self gp = slf"
  by (auto simp: NewGRPCPoolOptions_def Let_def membership_consistent_def consistenthash_New_def
      IsEmpty_def split: if_splits)

lemma SetPeers_consistent:
  "membership_consistent (fst (snd (SetPeers dial ps (gp, n))))"
  by (simp add: SetPeers_def Set_membership_consistent)

lemma AddPeers_consistent:
  "membership_consistent gp \<Longrightarrow> membership_consistent (fst (snd (AddPeers dial ps (gp, n))))"
  using AddPeers_loop_consistent [of "(gp, n)" dial ps] by (simp add: AddPeers_def)

lemma RemovePeers_ring_unchanged:
  "peers (fst (snd (RemovePeers ps (gp, n)))) = peers gp"
  using RemovePeers_loop_peers [of ps "(gp, n)"] by (simp add: RemovePeers_def)

lemma RemovePeers_getters:
  "map_of (grpcGetters (fst (snd (RemovePeers ps (gp, n))))) a =
     (if a \<in> set ps then None else map_of (grpcGetters gp) a)"
  using RemovePeers_loop_getters [of ps "(gp, n)" a] by (simp add: RemovePeers_def)

lemma handlers_acknowledge:
  "fst (SetPeers dial ps s) = Inr Ack \<and> fst (AddPeers dial ps s) = Inr Ack \<and>
   fst (RemovePeers ps s) = Inr Ack"
  by (simp add: SetPeers_def AddPeers_def RemovePeers_def)



lemma AddPeers_existing_untouched:
  assumes "map_of (grpcGetters gp) a = Some g"
  shows "map_of (grpcGetters (fst (snd (AddPeers dial ps (gp, n))))) a = Some g"
  using AddPeers_loop_kept [of "(gp, n)" a g dial ps] assms by (simp add: AddPeers_def)

lemma SetPeers_reuses_connection:
  assumes "distinct ps" and "a \<in> set ps" and "map_of (grpcGetters gp) a = Some g"
  shows "map_of (grpcGetters (fst (snd (SetPeers dial ps (gp, n))))) a = Some g"
  using Set_reuses [OF assms] by (simp add: SetPeers_def)

section \<open>Log lines of failed dials\<close>















section \<open>The claims\<close>

subsection \<open>C1: RemovePeers\<close>

text \<open>
  C1. For every listed address that is a member, \<^verbatim>\<open>RemovePeers\<close> closes its connection
  and removes it from the connections map and from the hash ring; other addresses are
  ignored and the call always acknowledges. The code closes the connection, deletes the
  map entry and acknowledges, but it never touches the ring (\<open>RemovePeers_ring_unchanged\<close>):
  from the pool whose only peer is \<open>B\<close>, \<^verbatim>\<open>RemovePeers([B])\<close> returns the
  acknowledgment, an empty map, connection 0 closed, and a ring that still holds \<open>B\<close>.
\<close>

theorem RemovePeers_leaves_ring:
  "RemovePeers [''B''] state_B =
     (Inr Ack,
      pool_A\<lparr>peers := \<lparr>ring_replicas = 50, ring_hash = None, ring_members = [''B'']\<rparr>\<rparr>,
      \<lparr>nextConn = 1, closedConns = [0], logs = [Infof_Removing ''B'']\<rparr>)"
  by (simp add: state_B_eval eval_ops)

subsection \<open>C2: the keys of the map are the addresses in the ring\<close>

text \<open>
  C2. After construction and after every membership operation the keys of the
  connections map are exactly the addresses in the ring. This holds after construction
  (\<open>NewGRPCPoolOptions_consistent\<close>), after \<^verbatim>\<open>SetPeers\<close> (\<open>SetPeers_consistent\<close>) and is
  kept by \<^verbatim>\<open>AddPeers\<close> (\<open>AddPeers_consistent\<close>); \<^verbatim>\<open>RemovePeers\<close> breaks it: the pool whose
  only peer is \<open>B\<close> satisfies the invariant, and after \<^verbatim>\<open>RemovePeers([B])\<close> it does not.
\<close>

theorem RemovePeers_breaks_consistency:
  "membership_consistent (fst state_B) \<and>
   \<not> membership_consistent (fst (snd (RemovePeers [''B''] state_B)))"
  by (simp add: state_B_eval eval_ops)

subsection \<open>C3: PickPeer when the owner has no connection\<close>

text \<open>
  C3. For a key whose owner according to the ring is not \<open>self\<close> and has no entry in the
  connections map, \<^verbatim>\<open>PickPeer\<close> should not fault and should answer "no remote owner" (no
  connection, \<open>found = false\<close>). The code has no such guard: it returns the lookup of the
  owner in the map together with \<open>found = true\<close>. In the pool left by
  \<^verbatim>\<open>RemovePeers([B])\<close>, whose ring still answers \<open>B\<close>, the ring is not empty, the owner \<open>B\<close>
  is not \<open>self\<close> and has no connection, and the result is the nil connection with
  \<open>found = true\<close>.
\<close>

theorem PickPeer_stale_owner_found:
  "\<not> IsEmpty (peers (fst (snd (RemovePeers [''B''] state_B)))) \<and>
   owner_B (peers (fst (snd (RemovePeers [''B''] state_B)))) ''k''
     \<noteq> self (fst (snd (RemovePeers [''B''] state_B))) \<and>
   map_of (grpcGetters (fst (snd (RemovePeers [''B''] state_B))))
     (owner_B (peers (fst (snd (RemovePeers [''B''] state_B)))) ''k'') = None \<and>
   PickPeer owner_B (fst (snd (RemovePeers [''B''] state_B))) ''k'' = (None, True)"
  by (simp add: state_B_eval eval_ops)

subsection \<open>C4: SetPeers reuses connections\<close>

text \<open>
  C4. Two consecutive \<^verbatim>\<open>SetPeers\<close> calls keep the identical connection for every address
  present in both. This holds when the list has no repeated address
  (\<open>SetPeers_reuses_connection\<close>). With a repeated address it fails: the second occurrence
  is looked up in the old map, from which the first occurrence has removed it, so the
  address is dialled again. From the fresh pool, \<^verbatim>\<open>SetPeers([B, B])\<close> leaves \<open>B\<close> with
  connection 1, and the same call again leaves it with the new connection 2.
\<close>

theorem SetPeers_repeated_address_redials:
  "map_of (grpcGetters (fst (snd (SetPeers dial_ok [''B'', ''B''] (pool_A, net_0))))) ''B''
     = Some \<lparr>address = ''B'', conn = Some 1\<rparr> \<and>
   map_of (grpcGetters (fst (snd (SetPeers dial_ok [''B'', ''B'']
      (snd (SetPeers dial_ok [''B'', ''B''] (pool_A, net_0))))))) ''B''
     = Some \<lparr>address = ''B'', conn = Some 2\<rparr>"
  by (simp add: eval_defs)

subsection \<open>C5: SetPeers with every address reachable\<close>

text \<open>
  C5. When every address of the list \<open>ps\<close> can be dialled, after \<^verbatim>\<open>SetPeers(ps)\<close> the
  connections map has exactly one entry per address of \<open>ps\<close> and \<^verbatim>\<open>GetAll\<close> returns the
  connections of these entries (so as many as \<open>ps\<close> has distinct addresses); the ring is
  non-empty iff \<open>ps\<close> is non-empty; and every connection held before the call under an
  address that is not in \<open>ps\<close> has been closed and its entry is gone.
\<close>

theorem SetPeers_all_reachable:
  assumes "\<forall>a\<in>set ps. dial a (dialOpts gp)"
    and "SetPeers dial ps (gp, n) = (r, gp', n')"
  shows "distinct (map fst (grpcGetters gp')) \<and>
         fst ` set (grpcGetters gp') = set ps \<and>
         GetAll gp' = map snd (grpcGetters gp') \<and>
         length (GetAll gp') = card (set ps) \<and>
         (\<not> IsEmpty (peers gp') \<longleftrightarrow> ps \<noteq> []) \<and>
         (\<forall>a g c. map_of (grpcGetters gp) a = Some g \<and> a \<notin> set ps \<and> conn g = Some c \<longrightarrow>
            c \<in> set (closedConns n') \<and> map_of (grpcGetters gp') a = None)"
proof -
  from assms(2) have gp': "gp' = fst (Set dial ps (gp, n))" and n': "n' = snd (Set dial ps (gp, n))"
    by (simp_all add: SetPeers_def)
  have d: "distinct (map fst (grpcGetters gp'))"
    unfolding gp' by (rule Set_distinct)
  have k: "fst ` set (grpcGetters gp') = set ps"
    unfolding gp' using assms(1) by (auto simp: Set_keys)
  have g: "GetAll gp' = map snd (grpcGetters gp')"
    using d by (simp add: GetAll_def distinct_clearjunk_id)
  have "length (GetAll gp') = length (map fst (grpcGetters gp'))"
    by (simp add: g)
  also have "\<dots> = card (set (map fst (grpcGetters gp')))"
    using d by (simp only: distinct_card)
  also have "\<dots> = card (set ps)"
    using k by simp
  finally have l: "length (GetAll gp') = card (set ps)" .
  have "set (ring_members (peers gp')) = set ps"
    unfolding gp' using assms(1) by (auto simp: Set_ring)
  then have e: "\<not> IsEmpty (peers gp') \<longleftrightarrow> ps \<noteq> []"
    by (auto simp: IsEmpty_def)
  have c: "c \<in> set (closedConns n') \<and> map_of (grpcGetters gp') a = None"
    if "map_of (grpcGetters gp) a = Some g \<and> a \<notin> set ps \<and> conn g = Some c" for a g c
  proof
    from that show "c \<in> set (closedConns n')"
      unfolding n' by (auto simp: Set_closedConns)
    from that k have "a \<notin> fst ` set (grpcGetters gp')" by simp
    then show "map_of (grpcGetters gp') a = None"
      by (simp add: map_of_eq_None_iff)
  qed
  from d k g l e c show ?thesis by blast
qed

text \<open>
  The theorem at \<^verbatim>\<open>SetPeers([C, D])\<close> on the pool that holds \<open>B\<close> and \<open>C\<close>: the connection
  of \<open>B\<close> is closed and dropped.
\<close>

theorem SetPeers_all_reachable_witness:
  "dial_ok ''C'' (dialOpts (fst state_BC)) \<and> dial_ok ''D'' (dialOpts (fst state_BC)) \<and>
   map_of (grpcGetters (fst state_BC)) ''B'' = Some \<lparr>address = ''B'', conn = Some 0\<rparr> \<and>
   ''B'' \<notin> set [''C'', ''D''] \<and>
   GetAll (fst (snd (SetPeers dial_ok [''C'', ''D''] state_BC))) =
     [\<lparr>address = ''C'', conn = Some 1\<rparr>, \<lparr>address = ''D'', conn = Some 2\<rparr>] \<and>
   length (GetAll (fst (snd (SetPeers dial_ok [''C'', ''D''] state_BC)))) = card (set [''C'', ''D'']) \<and>
   \<not> IsEmpty (peers (fst (snd (SetPeers dial_ok [''C'', ''D''] state_BC)))) \<and>
   0 \<in> set (closedConns (snd (snd (SetPeers dial_ok [''C'', ''D''] state_BC)))) \<and>
   map_of (grpcGetters (fst (snd (SetPeers dial_ok [''C'', ''D''] state_BC)))) ''B'' = None"
proof -
  have h1: "\<forall>a\<in>set [''C'', ''D'']. dial_ok a (dialOpts (fst state_BC))"
    by (simp add: dial_ok_def)
  have h2: "SetPeers dial_ok [''C'', ''D''] (fst state_BC, snd state_BC) =
              (fst (SetPeers dial_ok [''C'', ''D''] state_BC),
               fst (snd (SetPeers dial_ok [''C'', ''D''] state_BC)),
               snd (snd (SetPeers dial_ok [''C'', ''D''] state_BC)))"
    by simp
  have h3: "map_of (grpcGetters (fst state_BC)) ''B'' = Some \<lparr>address = ''B'', conn = Some 0\<rparr>"
    by (simp add: state_BC_eval eval_ops)
  have h4: "GetAll (fst (snd (SetPeers dial_ok [''C'', ''D''] state_BC))) =
     [\<lparr>address = ''C'', conn = Some 1\<rparr>, \<lparr>address = ''D'', conn = Some 2\<rparr>]"
    by (simp add: state_BC_eval eval_ops)
  note t = SetPeers_all_reachable [OF h1 h2]
  from t have "length (GetAll (fst (snd (SetPeers dial_ok [''C'', ''D''] state_BC)))) =
      card (set [''C'', ''D''])" by blast
  moreover from t have "\<not> IsEmpty (peers (fst (snd (SetPeers dial_ok [''C'', ''D''] state_BC))))"
    by simp
  moreover from t have "map_of (grpcGetters (fst state_BC)) ''B'' =
        Some \<lparr>address = ''B'', conn = Some 0\<rparr> \<and>
      ''B'' \<notin> set [''C'', ''D''] \<and> conn \<lparr>address = ''B'', conn = Some 0\<rparr> = Some 0 \<longrightarrow>
      0 \<in> set (closedConns (snd (snd (SetPeers dial_ok [''C'', ''D''] state_BC)))) \<and>
      map_of (grpcGetters (fst (snd (SetPeers dial_ok [''C'', ''D''] state_BC)))) ''B'' = None"
    by blast
  with h3 have "0 \<in> set (closedConns (snd (snd (SetPeers dial_ok [''C'', ''D''] state_BC)))) \<and>
   map_of (grpcGetters (fst (snd (SetPeers dial_ok [''C'', ''D''] state_BC)))) ''B'' = None"
    by simp
  ultimately show ?thesis using h1 h3 h4 by simp
qed

subsection \<open>C6: PickPeer\<close>

text \<open>
  C6. If the ring is empty, \<^verbatim>\<open>PickPeer\<close> returns "no remote owner" (nil, not found); if
  the owner that the ring computes for the key is \<open>self\<close>, it returns "no remote owner";
  otherwise it returns the connection registered for the owner, with \<open>found = true\<close>.
\<close>

theorem PickPeer_cases:
  "(IsEmpty (peers gp) \<longrightarrow> PickPeer ringGet gp key = (None, False)) \<and>
   (\<not> IsEmpty (peers gp) \<and> ringGet (peers gp) key = self gp \<longrightarrow>
      PickPeer ringGet gp key = (None, False)) \<and>
   (\<not> IsEmpty (peers gp) \<and> ringGet (peers gp) key \<noteq> self gp \<longrightarrow>
      PickPeer ringGet gp key = (map_of (grpcGetters gp) (ringGet (peers gp) key), True))"
  by (simp add: PickPeer_def Let_def)

text \<open>
  The three cases at concrete pools: the fresh pool, and the pool whose only peer is
  \<open>B\<close> with a ring that answers \<open>A\<close> (self) and one that answers \<open>B\<close>.
\<close>

theorem PickPeer_cases_witness:
  "PickPeer owner_B pool_A ''k'' = (None, False) \<and>
   PickPeer (\<lambda>m k. ''A'') (fst state_B) ''k'' = (None, False) \<and>
   PickPeer owner_B (fst state_B) ''k'' = (Some \<lparr>address = ''B'', conn = Some 0\<rparr>, True)"
proof -
  have 1: "IsEmpty (peers pool_A)" by (simp add: eval_defs)
  have 2: "\<not> IsEmpty (peers (fst state_B)) \<and> (\<lambda>m k. ''A'') (peers (fst state_B)) ''k'' = self (fst state_B)"
    by (simp add: state_B_eval eval_ops)
  have 3: "\<not> IsEmpty (peers (fst state_B)) \<and> owner_B (peers (fst state_B)) ''k'' \<noteq> self (fst state_B)"
    by (simp add: state_B_eval eval_ops)
  have 4: "map_of (grpcGetters (fst state_B)) (owner_B (peers (fst state_B)) ''k'')
             = Some \<lparr>address = ''B'', conn = Some 0\<rparr>"
    by (simp add: state_B_eval eval_ops)
  from 1 PickPeer_cases [of pool_A owner_B "''k''"]
  have a: "PickPeer owner_B pool_A ''k'' = (None, False)" by blast
  from 2 PickPeer_cases [of "fst state_B" "\<lambda>m k. ''A''" "''k''"]
  have b: "PickPeer (\<lambda>m k. ''A'') (fst state_B) ''k'' = (None, False)" by blast
  from 3 4 PickPeer_cases [of "fst state_B" owner_B "''k''"]
  have c: "PickPeer owner_B (fst state_B) ''k'' = (Some \<lparr>address = ''B'', conn = Some 0\<rparr>, True)"
    by simp
  from a b c show ?thesis by simp
qed

subsection \<open>C7: failed dials are not reported\<close>




subsection \<open>C8: Retrieve\<close>

text \<open>
  C8. \<^verbatim>\<open>Retrieve\<close> on a group name that is not registered fails with "unable to find
  group" and leaves the registry, so every counter, as it was. On a registered group it
  increments the server-request counter of that group once, before it delegates the
  fetch, and returns the bytes fetched or the fetch failure wrapped; when the fetch
  itself leaves the counter alone, the counter after the call is the counter before
  plus one.
\<close>

theorem Retrieve_counts_once:
  assumes "\<forall>g k. Stats_ServerRequests (snd (groupGet g k)) = Stats_ServerRequests g"
  shows
    "(groups (retrieve_Group req) = None \<longrightarrow>
        Retrieve groupGet groups req = (Inl (UnableToFindGroup (retrieve_Group req)), groups)) \<and>
     (\<forall>g. groups (retrieve_Group req) = Some g \<longrightarrow>
        (\<exists>g'. snd (Retrieve groupGet groups req) = groups(retrieve_Group req \<mapsto> g') \<and>
              g' = snd (groupGet (g\<lparr>Stats_ServerRequests := Stats_ServerRequests g + 1\<rparr>)
                         (retrieve_Key req)) \<and>
              Stats_ServerRequests g' = Stats_ServerRequests g + 1) \<and>
        fst (Retrieve groupGet groups req) =
          (case fst (groupGet (g\<lparr>Stats_ServerRequests := Stats_ServerRequests g + 1\<rparr>)
                       (retrieve_Key req)) of
             Inl err \<Rightarrow> Inl (FailedToRetrieve (retrieve_Group req) (retrieve_Key req) err)
           | Inr v \<Rightarrow> Inr \<lparr>Value = v\<rparr>))"
proof (intro conjI allI impI)
  assume "groups (retrieve_Group req) = None"
  then show "Retrieve groupGet groups req = (Inl (UnableToFindGroup (retrieve_Group req)), groups)"
    by (simp add: Retrieve_def GetGroup_def)
next
  fix g assume g: "groups (retrieve_Group req) = Some g"
  let ?g1 = "g\<lparr>Stats_ServerRequests := Stats_ServerRequests g + 1\<rparr>"
  obtain r g' where f: "groupGet ?g1 (retrieve_Key req) = (r, g')" by (cases "groupGet ?g1 (retrieve_Key req)")
  from assms have "Stats_ServerRequests (snd (groupGet ?g1 (retrieve_Key req))) = Stats_ServerRequests ?g1"
    by blast
  with f have c: "Stats_ServerRequests g' = Stats_ServerRequests g + 1" by simp
  from g f have s: "snd (Retrieve groupGet groups req) = groups(retrieve_Group req \<mapsto> g')"
    by (cases r) (simp_all add: Retrieve_def GetGroup_def)
  from s c f
  show "\<exists>g'. snd (Retrieve groupGet groups req) = groups(retrieve_Group req \<mapsto> g') \<and>
              g' = snd (groupGet ?g1 (retrieve_Key req)) \<and>
              Stats_ServerRequests g' = Stats_ServerRequests g + 1"
    by simp
  from g f show "fst (Retrieve groupGet groups req) =
          (case fst (groupGet ?g1 (retrieve_Key req)) of
             Inl err \<Rightarrow> Inl (FailedToRetrieve (retrieve_Group req) (retrieve_Key req) err)
           | Inr v \<Rightarrow> Inr \<lparr>Value = v\<rparr>)"
    by (cases r) (simp_all add: Retrieve_def GetGroup_def)
qed

text \<open>
  The theorem on a registry with the one group \<open>g\<close>, whose counter is 7: an unknown
  group, a successful fetch and a failing fetch.
\<close>

theorem Retrieve_counts_once_witness:
  "(\<forall>g k. Stats_ServerRequests (snd (fetch_0 g k)) = Stats_ServerRequests g) \<and>
   groups_0 ''h'' = None \<and> groups_0 ''g'' = Some group_g \<and>
   Retrieve fetch_0 groups_0 \<lparr>retrieve_Group = ''h'', retrieve_Key = ''k''\<rparr> =
     (Inl (UnableToFindGroup ''h''), groups_0) \<and>
   snd (Retrieve fetch_0 groups_0 \<lparr>retrieve_Group = ''g'', retrieve_Key = ''k''\<rparr>) =
     groups_0(''g'' \<mapsto> group_g\<lparr>Stats_ServerRequests := 8\<rparr>) \<and>
   fst (Retrieve fetch_0 groups_0 \<lparr>retrieve_Group = ''g'', retrieve_Key = ''k''\<rparr>) =
     Inr \<lparr>Value = [1, 2]\<rparr> \<and>
   fst (Retrieve fetch_0 groups_0 \<lparr>retrieve_Group = ''g'', retrieve_Key = ''j''\<rparr>) =
     Inl (FailedToRetrieve ''g'' ''j'' (OtherError ''miss''))"
proof -
  have h: "\<forall>g k. Stats_ServerRequests (snd (fetch_0 g k)) = Stats_ServerRequests g"
    by (simp add: fetch_0_def split: option.split)
  have n: "groups_0 ''h'' = None" and s: "groups_0 ''g'' = Some group_g"
    by (simp_all add: groups_0_def)
  have f: "fetch_0 (group_g\<lparr>Stats_ServerRequests := Stats_ServerRequests group_g + 1\<rparr>) ''k'' =
             (Inr [1, 2], group_g\<lparr>Stats_ServerRequests := 8\<rparr>)"
    by (simp add: fetch_0_def group_g_def)
  have f': "fetch_0 (group_g\<lparr>Stats_ServerRequests := Stats_ServerRequests group_g + 1\<rparr>) ''j'' =
             (Inl (OtherError ''miss''), group_g\<lparr>Stats_ServerRequests := 8\<rparr>)"
    by (simp add: fetch_0_def group_g_def)
  from n Retrieve_counts_once [OF h, of groups_0 "\<lparr>retrieve_Group = ''h'', retrieve_Key = ''k''\<rparr>"]
  have a: "Retrieve fetch_0 groups_0 \<lparr>retrieve_Group = ''h'', retrieve_Key = ''k''\<rparr> =
     (Inl (UnableToFindGroup ''h''), groups_0)"
    by simp
  from s f Retrieve_counts_once [OF h, of groups_0 "\<lparr>retrieve_Group = ''g'', retrieve_Key = ''k''\<rparr>"]
  have b: "snd (Retrieve fetch_0 groups_0 \<lparr>retrieve_Group = ''g'', retrieve_Key = ''k''\<rparr>) =
     groups_0(''g'' \<mapsto> group_g\<lparr>Stats_ServerRequests := 8\<rparr>) \<and>
   fst (Retrieve fetch_0 groups_0 \<lparr>retrieve_Group = ''g'', retrieve_Key = ''k''\<rparr>) =
     Inr \<lparr>Value = [1, 2]\<rparr>"
    by simp
  from s f' Retrieve_counts_once [OF h, of groups_0 "\<lparr>retrieve_Group = ''g'', retrieve_Key = ''j''\<rparr>"]
  have c: "fst (Retrieve fetch_0 groups_0 \<lparr>retrieve_Group = ''g'', retrieve_Key = ''j''\<rparr>) =
     Inl (FailedToRetrieve ''g'' ''j'' (OtherError ''miss''))"
    by simp
  from h n s a b c show ?thesis by blast
qed

subsection \<open>C9: construction happens once\<close>

text \<open>
  C9. In a process where no pool has been created, construction through
  \<^verbatim>\<open>NewGRPCPoolOptions\<close> and through \<^verbatim>\<open>NewGRPCPool\<close> succeeds, returns a pool for the given
  \<open>self\<close> with no connections and an empty ring, and sets \<^verbatim>\<open>grpcPoolCreated\<close>; any
  construction after it, through either function, panics and changes nothing.
\<close>

theorem construction_once:
  assumes "\<not> grpcPoolCreated ps"
  shows
    "(\<exists>gp. fst (NewGRPCPoolOptions d slf os ps) = Inr gp \<and> self gp = slf \<and>
           grpcGetters gp = [] \<and> IsEmpty (peers gp)) \<and>
     grpcPoolCreated (snd (NewGRPCPoolOptions d slf os ps)) \<and>
     NewGRPCPoolOptions d' slf' os' (snd (NewGRPCPoolOptions d slf os ps)) =
       (Inl PanicCalledOnlyOnce, snd (NewGRPCPoolOptions d slf os ps)) \<and>
     NewGRPCPool d' slf' (snd (NewGRPCPoolOptions d slf os ps)) =
       (Inl PanicCalledOnlyOnce, snd (NewGRPCPoolOptions d slf os ps)) \<and>
     (\<exists>gp. fst (NewGRPCPool d slf ps) = Inr gp \<and> self gp = slf \<and>
           grpcGetters gp = [] \<and> IsEmpty (peers gp)) \<and>
     grpcPoolCreated (snd (NewGRPCPool d slf ps)) \<and>
     NewGRPCPoolOptions d' slf' os' (snd (NewGRPCPool d slf ps)) =
       (Inl PanicCalledOnlyOnce, snd (NewGRPCPool d slf ps)) \<and>
     NewGRPCPool d' slf' (snd (NewGRPCPool d slf ps)) =
       (Inl PanicCalledOnlyOnce, snd (NewGRPCPool d slf ps))"
  using assms
  by (simp add: NewGRPCPool_def NewGRPCPoolOptions_def Let_def consistenthash_New_def IsEmpty_def)

text \<open>
  The theorem at the process before construction.
\<close>

theorem construction_once_witness:
  "\<not> grpcPoolCreated process_0 \<and>
   fst (NewGRPCPool 50 ''A'' process_0) = Inr pool_A \<and>
   grpcPoolCreated (snd (NewGRPCPool 50 ''A'' process_0)) \<and>
   NewGRPCPool 50 ''A'' (snd (NewGRPCPool 50 ''A'' process_0)) =
     (Inl PanicCalledOnlyOnce, snd (NewGRPCPool 50 ''A'' process_0)) \<and>
   NewGRPCPoolOptions 50 ''A'' None (snd (NewGRPCPool 50 ''A'' process_0)) =
     (Inl PanicCalledOnlyOnce, snd (NewGRPCPool 50 ''A'' process_0)) \<and>
   grpcPoolCreated (snd (NewGRPCPoolOptions 50 ''A'' None process_0)) \<and>
   NewGRPCPool 50 ''A'' (snd (NewGRPCPoolOptions 50 ''A'' None process_0)) =
     (Inl PanicCalledOnlyOnce, snd (NewGRPCPoolOptions 50 ''A'' None process_0))"
proof -
  have h: "\<not> grpcPoolCreated process_0" by (simp add: process_0_def)
  have c: "fst (NewGRPCPool 50 ''A'' process_0) = Inr pool_A"
    by (simp add: pool_A_constructed)
  from h c construction_once [OF h, of 50 "''A''" None 50 "''A''" None] show ?thesis
    by blast
qed

subsection \<open>C10: Delete counts a server request\<close>

text \<open>
  C10. On a registered group, \<^verbatim>\<open>Delete\<close> increments the server-request counter of that
  group once and then performs the local removal on the group so updated, and
  acknowledges; on a group name that is not registered it fails and changes nothing.
\<close>

theorem Delete_counts_once:
  "(groups (delete_Group req) = None \<longrightarrow>
      Delete localRemove groups req = (Inl (UnableToFindGroup (delete_Group req)), groups)) \<and>
   (\<forall>g. groups (delete_Group req) = Some g \<longrightarrow>
      Delete localRemove groups req =
        (Inr Ack,
         groups(delete_Group req \<mapsto>
           localRemove (g\<lparr>Stats_ServerRequests := Stats_ServerRequests g + 1\<rparr>) (delete_Key req))))"
  by (simp add: Delete_def GetGroup_def)

text \<open>
  The theorem on the registry with the one group \<open>g\<close>.
\<close>

theorem Delete_counts_once_witness:
  "groups_0 ''h'' = None \<and> groups_0 ''g'' = Some group_g \<and>
   Delete localRemove_0 groups_0 \<lparr>delete_Group = ''h'', delete_Key = ''k''\<rparr> =
     (Inl (UnableToFindGroup ''h''), groups_0) \<and>
   Delete localRemove_0 groups_0 \<lparr>delete_Group = ''g'', delete_Key = ''k''\<rparr> =
     (Inr Ack, groups_0(''g'' \<mapsto> \<lparr>Stats_ServerRequests = 8, entries = []\<rparr>))"
proof -
  have n: "groups_0 ''h'' = None" and s: "groups_0 ''g'' = Some group_g"
    by (simp_all add: groups_0_def)
  have r: "localRemove_0 (group_g\<lparr>Stats_ServerRequests := Stats_ServerRequests group_g + 1\<rparr>) ''k'' =
             \<lparr>Stats_ServerRequests = 8, entries = []\<rparr>"
    by (simp add: localRemove_0_def group_g_def)
  from n Delete_counts_once [of groups_0 "\<lparr>delete_Group = ''h'', delete_Key = ''k''\<rparr>" localRemove_0]
  have a: "Delete localRemove_0 groups_0 \<lparr>delete_Group = ''h'', delete_Key = ''k''\<rparr> =
     (Inl (UnableToFindGroup ''h''), groups_0)"
    by simp
  from s r Delete_counts_once [of groups_0 "\<lparr>delete_Group = ''g'', delete_Key = ''k''\<rparr>" localRemove_0]
  have b: "Delete localRemove_0 groups_0 \<lparr>delete_Group = ''g'', delete_Key = ''k''\<rparr> =
     (Inr Ack, groups_0(''g'' \<mapsto> \<lparr>Stats_ServerRequests = 8, entries = []\<rparr>))"
    by simp
  from n s a b show ?thesis by blast
qed

end
